theory Spec2Isabelle
  imports Main "HOL-Library.Word" "HOL-Library.Sublist"
begin

unbundle bit_operations_syntax

section \<open>JavaScript strings and values\<close>

text \<open>
  A JavaScript string is a sequence of UTF-16 code units; \<open>charCodeAt\<close> reads one of
  them. Literals of the source are written \<open>ascii ''...''\<close>.
\<close>

type_synonym jsstring = "nat list"

definition ascii :: "string \<Rightarrow> jsstring" where
  "ascii s = map of_char s"

text \<open>
  The values that signals and configuration fields take. \<open>Num\<close> stands for the
  integer-valued numbers that a double holds exactly and prints in plain digits;
  fractions, \<open>NaN\<close> and the infinities are floating point and outside this model. An
  object is the list of its own enumerable properties in enumeration order.
\<close>

datatype jsval =
    Undefined
  | Null
  | Bool bool
  | Num int
  | Str jsstring
  | Arr "jsval list"
  | Obj "(jsstring \<times> jsval) list"

text \<open>\<open>{ key, value }\<close>, what a collector's \<open>get()\<close> produces.\<close>

record component =
  key :: jsstring
  val :: jsval

subsection \<open>Number.prototype.toString(radix) on integers\<close>

definition digit_char :: "nat \<Rightarrow> nat" where
  "digit_char d = (if d < 10 then 48 + d else 87 + d)"

function radix_digits :: "nat \<Rightarrow> nat \<Rightarrow> jsstring" where
  "radix_digits r n =
     (if r < 2 \<or> n < r then [digit_char n]
      else radix_digits r (n div r) @ [digit_char (n mod r)])"
  by pat_completeness auto
termination
  by (relation "measure (\<lambda>(r, n). n)") auto

declare radix_digits.simps [simp del]

definition Number_toString :: "nat \<Rightarrow> int \<Rightarrow> jsstring" where
  "Number_toString radix x =
     (if x < 0 then 45 # radix_digits radix (nat (- x)) else radix_digits radix (nat x))"

subsection \<open>JSON.stringify\<close>

definition is_lead :: "nat \<Rightarrow> bool" where
  "is_lead c = (55296 \<le> c \<and> c \<le> 56319)"

definition is_trail :: "nat \<Rightarrow> bool" where
  "is_trail c = (56320 \<le> c \<and> c \<le> 57343)"

text \<open>\<open>\<bsol>uXXXX\<close> with four lowercase hexadecimal digits.\<close>

definition UnicodeEscape :: "nat \<Rightarrow> jsstring" where
  "UnicodeEscape c =
     [92, 117, digit_char (c div 4096 mod 16), digit_char (c div 256 mod 16),
      digit_char (c div 16 mod 16), digit_char (c mod 16)]"

definition quote_unit :: "nat \<Rightarrow> jsstring" where
  "quote_unit c =
     (if c = 8 then [92, 98]
      else if c = 9 then [92, 116]
      else if c = 10 then [92, 110]
      else if c = 12 then [92, 102]
      else if c = 13 then [92, 114]
      else if c = 34 then [92, 34]
      else if c = 92 then [92, 92]
      else if c < 32 then UnicodeEscape c
      else [c])"

fun quote_units :: "jsstring \<Rightarrow> jsstring" where
  "quote_units [] = []"
| "quote_units [c] =
     (if is_lead c \<or> is_trail c then UnicodeEscape c else quote_unit c)"
| "quote_units (c # d # ds) =
     (if is_lead c \<and> is_trail d then c # d # quote_units ds
      else if is_lead c \<or> is_trail c then UnicodeEscape c @ quote_units (d # ds)
      else quote_unit c @ quote_units (d # ds))"

definition QuoteJSONString :: "jsstring \<Rightarrow> jsstring" where
  "QuoteJSONString s = 34 # quote_units s @ [34]"

fun join :: "jsstring \<Rightarrow> jsstring list \<Rightarrow> jsstring" where
  "join sep [] = []"
| "join sep [x] = x"
| "join sep (x # y # ys) = x @ sep @ join sep (y # ys)"

text \<open>
  \<open>SerializeJSONProperty\<close>: \<open>None\<close> is the result \<open>undefined\<close>. An array prints
  \<open>null\<close> for an element without a serialization, an object leaves such a property out.
\<close>

fun SerializeJSONProperty :: "jsval \<Rightarrow> jsstring option"
  and serialize_elements :: "jsval list \<Rightarrow> jsstring list"
  and serialize_properties :: "(jsstring \<times> jsval) list \<Rightarrow> jsstring list"
where
  "SerializeJSONProperty Undefined = None"
| "SerializeJSONProperty Null = Some (ascii ''null'')"
| "SerializeJSONProperty (Bool b) = Some (if b then ascii ''true'' else ascii ''false'')"
| "SerializeJSONProperty (Num n) = Some (Number_toString 10 n)"
| "SerializeJSONProperty (Str s) = Some (QuoteJSONString s)"
| "SerializeJSONProperty (Arr xs) =
     Some (91 # join [44] (serialize_elements xs) @ [93])"
| "SerializeJSONProperty (Obj ps) =
     Some (123 # join [44] (serialize_properties ps) @ [125])"
| "serialize_elements [] = []"
| "serialize_elements (x # xs) =
     (case SerializeJSONProperty x of None \<Rightarrow> ascii ''null'' | Some t \<Rightarrow> t)
       # serialize_elements xs"
| "serialize_properties [] = []"
| "serialize_properties (p # ps) =
     (case SerializeJSONProperty (snd p) of
        None \<Rightarrow> serialize_properties ps
      | Some t \<Rightarrow> (QuoteJSONString (fst p) @ 58 # t) # serialize_properties ps)"

text \<open>\<open>JSON.stringify\<close> applied to an array, which always yields a string.\<close>

definition JSON_stringify_array :: "jsval list \<Rightarrow> jsstring" where
  "JSON_stringify_array xs = 91 # join [44] (serialize_elements xs) @ [93]"

section \<open>The identity hasher\<close>

text \<open>
  The numbers of the loop are doubles holding integers far below \<open>2 ^ 53\<close>, so the
  arithmetic is exact and modelled on \<open>int\<close>. \<open><<\<close> and \<open>&\<close> convert their operands
  with \<open>ToInt32\<close>; \<open>-\<close> and \<open>+\<close> do not wrap.
\<close>

definition ToInt32 :: "int \<Rightarrow> int" where
  "ToInt32 x = (let m = x mod 2 ^ 32 in if 2 ^ 31 \<le> m then m - 2 ^ 32 else m)"

definition js_shl :: "int \<Rightarrow> int \<Rightarrow> int" where
  "js_shl x k = ToInt32 (ToInt32 x * 2 ^ nat (k mod 32))"

definition js_bitand :: "int \<Rightarrow> int \<Rightarrow> int" where
  "js_bitand x y = ToInt32 x AND ToInt32 y"

function hash_loop :: "jsstring \<Rightarrow> nat \<Rightarrow> int \<Rightarrow> int" where
  "hash_loop str i hash =
     (if i < length str then
        (let char = int (str ! i);
             hash1 = js_shl hash 5 - hash + char;
             hash2 = js_bitand hash1 hash1
         in hash_loop str (i + 1) hash2)
      else hash)"
  by pat_completeness auto
termination
  by (relation "measure (\<lambda>(str, i, hash). length str - i)") auto

declare hash_loop.simps [simp del]

definition hashComponents :: "component list \<Rightarrow> jsstring" where
  "hashComponents components =
     (let str = JSON_stringify_array (map val components);
          hash = hash_loop str 0 0
      in Number_toString 16 hash)"

subsection \<open>The hasher as the specification words it\<close>

text \<open>
  A signed 32-bit accumulator, \<open>h = (h << 5) - h + code\<close> wrapped at every step, folded
  over the code units of the serialized values.
\<close>

definition hash_step :: "32 word \<Rightarrow> nat \<Rightarrow> 32 word" where
  "hash_step h code = push_bit 5 h - h + of_nat code"

definition hash_accumulator :: "jsval list \<Rightarrow> 32 word" where
  "hash_accumulator values = foldl hash_step 0 (JSON_stringify_array values)"

definition lower_hex :: "nat \<Rightarrow> bool" where
  "lower_hex c = ((48 \<le> c \<and> c \<le> 57) \<or> (97 \<le> c \<and> c \<le> 102))"




section \<open>Truthiness and coercions\<close>

fun truthy :: "jsval \<Rightarrow> bool" where
  "truthy Undefined = False"
| "truthy Null = False"
| "truthy (Bool b) = b"
| "truthy (Num n) = (n \<noteq> 0)"
| "truthy (Str s) = (s \<noteq> [])"
| "truthy (Arr xs) = True"
| "truthy (Obj ps) = True"

text \<open>\<open>a || b\<close>\<close>

definition js_or :: "jsval \<Rightarrow> jsval \<Rightarrow> jsval" where
  "js_or a b = (if truthy a then a else b)"

text \<open>\<open>ToString\<close>, as a template literal applies it.\<close>

fun ToString :: "jsval \<Rightarrow> jsstring"
  and elements_toString :: "jsval list \<Rightarrow> jsstring list"
where
  "ToString Undefined = ascii ''undefined''"
| "ToString Null = ascii ''null''"
| "ToString (Bool b) = (if b then ascii ''true'' else ascii ''false'')"
| "ToString (Num n) = Number_toString 10 n"
| "ToString (Str s) = s"
| "ToString (Arr xs) = join [44] (elements_toString xs)"
| "ToString (Obj ps) = ascii ''[object Object]''"
| "elements_toString [] = []"
| "elements_toString (x # xs) =
     (if x = Undefined \<or> x = Null then [] else ToString x) # elements_toString xs"

definition is_whitespace :: "nat \<Rightarrow> bool" where
  "is_whitespace c =
     (c \<in> {9, 10, 11, 12, 13, 32, 160, 5760, 8232, 8233, 8239, 8287, 12288, 65279}
      \<or> (8192 \<le> c \<and> c \<le> 8202))"

definition is_digit :: "nat \<Rightarrow> bool" where
  "is_digit c = (48 \<le> c \<and> c \<le> 57)"

definition decimal_value :: "jsstring \<Rightarrow> int" where
  "decimal_value ds = foldl (\<lambda>n c. 10 * n + (int c - 48)) 0 ds"

text \<open>
  \<open>StringToNumber\<close>, with \<open>None\<close> for \<open>NaN\<close>. Only the decimal integer literals
  are read as numbers: fractions, exponents, the other radixes and \<open>Infinity\<close> denote
  numbers outside \<open>Num\<close> or written otherwise, and are left with \<open>None\<close> here.
\<close>

definition StringToNumber :: "jsstring \<Rightarrow> int option" where
  "StringToNumber s =
     (let t = rev (dropWhile is_whitespace (rev (dropWhile is_whitespace s)))
      in case t of
           [] \<Rightarrow> Some 0
         | c # ds \<Rightarrow>
             if c = 45 \<and> ds \<noteq> [] \<and> list_all is_digit ds then Some (- decimal_value ds)
             else if c = 43 \<and> ds \<noteq> [] \<and> list_all is_digit ds then Some (decimal_value ds)
             else if list_all is_digit t then Some (decimal_value t)
             else None)"

fun ToNumber :: "jsval \<Rightarrow> int option" where
  "ToNumber Undefined = None"
| "ToNumber Null = Some 0"
| "ToNumber (Bool b) = Some (if b then 1 else 0)"
| "ToNumber (Num n) = Some n"
| "ToNumber (Str s) = StringToNumber s"
| "ToNumber (Arr xs) = StringToNumber (ToString (Arr xs))"
| "ToNumber (Obj ps) = None"

section \<open>decodeURIComponent\<close>

datatype error = Error jsstring | URIError

text \<open>
  The string is read as literal code units and \<open>%XX\<close> octets; runs of octets are then
  decoded as UTF-8 and written as UTF-16. Every malformed input raises \<open>URIError\<close>.
\<close>

datatype token = Unit nat | Octet nat

definition hex_digit :: "nat \<Rightarrow> nat option" where
  "hex_digit c =
     (if 48 \<le> c \<and> c \<le> 57 then Some (c - 48)
      else if 65 \<le> c \<and> c \<le> 70 then Some (c - 55)
      else if 97 \<le> c \<and> c \<le> 102 then Some (c - 87)
      else None)"

definition ParseHexOctet :: "nat \<Rightarrow> nat \<Rightarrow> nat option" where
  "ParseHexOctet h l =
     (case hex_digit h of
        None \<Rightarrow> None
      | Some a \<Rightarrow> (case hex_digit l of None \<Rightarrow> None | Some b \<Rightarrow> Some (16 * a + b)))"

fun percent_tokens :: "jsstring \<Rightarrow> token list option" where
  "percent_tokens [] = Some []"
| "percent_tokens [c] = (if c = 37 then None else Some [Unit c])"
| "percent_tokens [c, h] =
     (if c = 37 then None else map_option ((#) (Unit c)) (percent_tokens [h]))"
| "percent_tokens (c # h # l # cs) =
     (if c = 37 then
        (case ParseHexOctet h l of
           None \<Rightarrow> None
         | Some b \<Rightarrow> map_option ((#) (Octet b)) (percent_tokens cs))
      else map_option ((#) (Unit c)) (percent_tokens (h # l # cs)))"

definition continuation :: "nat \<Rightarrow> bool" where
  "continuation b = (128 \<le> b \<and> b < 192)"

definition UTF16EncodeCodePoint :: "nat \<Rightarrow> jsstring" where
  "UTF16EncodeCodePoint cp =
     (if cp \<le> 65535 then [cp]
      else [(cp - 65536) div 1024 + 55296, (cp - 65536) mod 1024 + 56320])"

definition code_point2 :: "nat \<Rightarrow> nat \<Rightarrow> nat option" where
  "code_point2 b b1 =
     (let cp = (b mod 32) * 64 + b1 mod 64
      in if continuation b1 \<and> 128 \<le> cp then Some cp else None)"

definition code_point3 :: "nat \<Rightarrow> nat \<Rightarrow> nat \<Rightarrow> nat option" where
  "code_point3 b b1 b2 =
     (let cp = (b mod 16) * 4096 + (b1 mod 64) * 64 + b2 mod 64
      in if continuation b1 \<and> continuation b2 \<and> 2048 \<le> cp
            \<and> \<not> (55296 \<le> cp \<and> cp \<le> 57343)
         then Some cp else None)"

definition code_point4 :: "nat \<Rightarrow> nat \<Rightarrow> nat \<Rightarrow> nat \<Rightarrow> nat option" where
  "code_point4 b b1 b2 b3 =
     (let cp = (b mod 8) * 262144 + (b1 mod 64) * 4096 + (b2 mod 64) * 64 + b3 mod 64
      in if continuation b1 \<and> continuation b2 \<and> continuation b3
            \<and> 65536 \<le> cp \<and> cp \<le> 1114111
         then Some cp else None)"

fun utf8_units :: "token list \<Rightarrow> jsstring option" where
  "utf8_units [] = Some []"
| "utf8_units (Unit c # ts) = map_option ((#) c) (utf8_units ts)"
| "utf8_units (Octet b # ts) =
     (if b < 128 then map_option ((#) b) (utf8_units ts)
      else if b < 192 then None
      else if b < 224 then
        (case ts of
           Octet b1 # r \<Rightarrow>
             (case code_point2 b b1 of
                None \<Rightarrow> None
              | Some cp \<Rightarrow> map_option ((@) (UTF16EncodeCodePoint cp)) (utf8_units r))
         | _ \<Rightarrow> None)
      else if b < 240 then
        (case ts of
           Octet b1 # Octet b2 # r \<Rightarrow>
             (case code_point3 b b1 b2 of
                None \<Rightarrow> None
              | Some cp \<Rightarrow> map_option ((@) (UTF16EncodeCodePoint cp)) (utf8_units r))
         | _ \<Rightarrow> None)
      else if b < 248 then
        (case ts of
           Octet b1 # Octet b2 # Octet b3 # r \<Rightarrow>
             (case code_point4 b b1 b2 b3 of
                None \<Rightarrow> None
              | Some cp \<Rightarrow> map_option ((@) (UTF16EncodeCodePoint cp)) (utf8_units r))
         | _ \<Rightarrow> None)
      else None)"

definition decodeURIComponent :: "jsstring \<Rightarrow> error + jsstring" where
  "decodeURIComponent s =
     (case percent_tokens s of
        None \<Rightarrow> Inl URIError
      | Some ts \<Rightarrow> (case utf8_units ts of None \<Rightarrow> Inl URIError | Some r \<Rightarrow> Inr r))"

section \<open>The host's record collection\<close>

text \<open>
  \<open>document.cookie\<close> of one origin, after RFC 6265, sections 5.2 to 5.4, for the path
  \<open>/\<close>: the records in creation order, each with its expiry time in milliseconds
  (\<open>None\<close> for a record that lasts as long as the browsing session).
\<close>

record cookie =
  cname :: jsstring
  cvalue :: jsstring
  expires :: "int option"

text \<open>
  The state of the host: the records, the clock (\<open>Date\<close>, in milliseconds) and the log
  of the collectors invoked so far, by their index in the registry.
\<close>

record host =
  jar :: "cookie list"
  now :: int
  calls :: "nat list"

text \<open>
  The text assigned to \<open>document.cookie\<close>. The part written before the first separator
  of the source is kept as text; the attributes the source appends are kept apart, the
  date as the time it denotes (\<open>None\<close> for \<open>Invalid Date\<close>). Attribute segments
  smuggled in through \<open>name_value\<close> are not interpreted.
\<close>

record cookie_string =
  name_value :: jsstring
  expires_attr :: "int option"
  path_attr :: jsstring
  sameSite_attr :: jsstring

definition alive :: "int \<Rightarrow> cookie \<Rightarrow> bool" where
  "alive t c = (case expires c of None \<Rightarrow> True | Some e \<Rightarrow> t < e)"

definition render :: "cookie \<Rightarrow> jsstring" where
  "render c = (if cname c = [] then cvalue c else cname c @ 61 # cvalue c)"

text \<open>Reading \<open>document.cookie\<close>: the unexpired records, joined by \<open>; \<close>.\<close>

definition document_cookie :: "host \<Rightarrow> jsstring" where
  "document_cookie h = join [59, 32] (map render (filter (alive (now h)) (jar h)))"

definition is_ctl :: "nat \<Rightarrow> bool" where
  "is_ctl c = (c \<le> 8 \<or> (10 \<le> c \<and> c \<le> 31) \<or> c = 127)"

definition is_wsp :: "nat \<Rightarrow> bool" where
  "is_wsp c = (c = 32 \<or> c = 9)"

definition trim_wsp :: "jsstring \<Rightarrow> jsstring" where
  "trim_wsp s = rev (dropWhile is_wsp (rev (dropWhile is_wsp s)))"

text \<open>
  A record replaces the one of the same name where that one stands, or is added last;
  one that is already expired only removes.
\<close>

fun store_cookie :: "int \<Rightarrow> cookie \<Rightarrow> cookie list \<Rightarrow> cookie list" where
  "store_cookie t c [] = (if alive t c then [c] else [])"
| "store_cookie t c (d # ds) =
     (if cname d = cname c
      then (if alive t c then [c] else []) @ filter (\<lambda>x. cname x \<noteq> cname c) ds
      else d # store_cookie t c ds)"

text \<open>Assigning to \<open>document.cookie\<close>. An HTTP date has whole seconds.\<close>

definition set_document_cookie :: "cookie_string \<Rightarrow> host \<Rightarrow> host" where
  "set_document_cookie str h =
     (let pair = takeWhile (\<lambda>c. c \<noteq> 59) (name_value str);
          n = (if 61 \<in> set pair then trim_wsp (takeWhile (\<lambda>c. c \<noteq> 61) pair) else []);
          v = (if 61 \<in> set pair then trim_wsp (tl (dropWhile (\<lambda>c. c \<noteq> 61) pair))
               else trim_wsp pair);
          e = map_option (\<lambda>t. t div 1000 * 1000) (expires_attr str)
      in if list_ex is_ctl (name_value str) \<or> (n = [] \<and> v = []) then h
         else h\<lparr>jar := store_cookie (now h) \<lparr>cname = n, cvalue = v, expires = e\<rparr> (jar h)\<rparr>)"

section \<open>The fingerprint session\<close>

text \<open>The configuration object; an absent field reads as \<open>undefined\<close>.\<close>

record options =
  opt_apiKey :: jsval
  opt_cookieName :: jsval
  opt_cookieDays :: jsval

text \<open>
  What \<open>get()\<close> of a collector does when invoked: return its signal or raise, at once
  or through a promise that is fulfilled or rejected later.
\<close>

datatype collector =
    Returns component
  | Throws error
  | Resolves component
  | Rejects error

record BrowserFingerprint =
  options :: options
  apiKey :: jsval
  cookieName :: jsval
  cookieDays :: jsval
  components :: "collector list"

text \<open>\<open>new BrowserFingerprint(options)\<close>; \<open>Inl\<close> is the exception thrown.\<close>

definition new_BrowserFingerprint :: "options \<Rightarrow> error + BrowserFingerprint" where
  "new_BrowserFingerprint opts =
     (let this = \<lparr>options = opts,
                  apiKey = opt_apiKey opts,
                  cookieName = js_or (opt_cookieName opts) (Str (ascii ''smbfjs_id'')),
                  cookieDays = js_or (opt_cookieDays opts) (Num 365),
                  components = []\<rparr>
      in if \<not> truthy (apiKey this) then Inl (Error (ascii ''API key is required''))
         else Inr this)"

definition TimeClip :: "int \<Rightarrow> int option" where
  "TimeClip t = (if \<bar>t\<bar> \<le> 8640000000000000 then Some t else None)"

text \<open>
  The date of \<open>setCookie\<close> after \<open>setTime\<close>: the time value of the expiry, \<open>None\<close>
  for an invalid date.
\<close>

definition expiry_date :: "BrowserFingerprint \<Rightarrow> host \<Rightarrow> int option" where
  "expiry_date this h =
     (case ToNumber (cookieDays this) of
        None \<Rightarrow> None
      | Some days \<Rightarrow> TimeClip (now h + days * 24 * 60 * 60 * 1000))"

definition setCookie :: "BrowserFingerprint \<Rightarrow> jsstring \<Rightarrow> host \<Rightarrow> host" where
  "setCookie this v h =
     set_document_cookie
       \<lparr>name_value = ToString (cookieName this) @ 61 # v,
        expires_attr = expiry_date this h,
        path_attr = ascii ''/'',
        sameSite_attr = ascii ''Lax''\<rparr> h"

text \<open>\<open>String.prototype.split\<close> at one code unit.\<close>

fun split :: "nat \<Rightarrow> jsstring \<Rightarrow> jsstring list" where
  "split sep [] = [[]]"
| "split sep (c # cs) =
     (if c = sep then [] # split sep cs
      else (case split sep cs of [] \<Rightarrow> [[c]] | x # xs \<Rightarrow> (c # x) # xs))"

text \<open>The loop of \<open>getCookie\<close> over the pieces; \<open>None\<close> is \<open>null\<close>.\<close>

fun find_cookie :: "jsstring \<Rightarrow> jsstring list \<Rightarrow> jsstring option" where
  "find_cookie name [] = None"
| "find_cookie name (cookie # cookies) =
     (let cookie1 = dropWhile (\<lambda>c. c = 32) cookie
      in if prefix name cookie1 then Some (drop (length name) cookie1)
         else find_cookie name cookies)"

definition getCookie :: "BrowserFingerprint \<Rightarrow> host \<Rightarrow> error + jsstring option" where
  "getCookie this h =
     (let name = ToString (cookieName this) @ [61]
      in case decodeURIComponent (document_cookie h) of
           Inl e \<Rightarrow> Inl e
         | Inr decodedCookie \<Rightarrow> Inr (find_cookie name (split 59 decodedCookie)))"

definition verifyApiKey :: "BrowserFingerprint \<Rightarrow> bool" where
  "verifyApiKey this = True"

definition addComponent :: "BrowserFingerprint \<Rightarrow> collector \<Rightarrow> BrowserFingerprint" where
  "addComponent this c = this\<lparr>components := components this @ [c]\<rparr>"

subsection \<open>Promise.all\<close>

datatype 'a settled = Fulfilled 'a | Rejected error

text \<open>\<open>c.get()\<close>: an exception, or a value or promise for \<open>Promise.all\<close> to await.\<close>

fun invoke :: "collector \<Rightarrow> error + component settled" where
  "invoke (Returns x) = Inr (Fulfilled x)"
| "invoke (Throws e) = Inl e"
| "invoke (Resolves x) = Inr (Fulfilled x)"
| "invoke (Rejects e) = Inr (Rejected e)"

text \<open>
  \<open>this.components.map((c) => c.get())\<close>: the collectors are invoked in registry order;
  one that raises ends the iteration.
\<close>

fun map_get :: "collector list \<Rightarrow> nat \<Rightarrow> host \<Rightarrow> (error + component settled list) \<times> host" where
  "map_get [] i h = (Inr [], h)"
| "map_get (c # cs) i h =
     (let h1 = h\<lparr>calls := calls h @ [i]\<rparr>
      in case invoke c of
           Inl e \<Rightarrow> (Inl e, h1)
         | Inr p \<Rightarrow>
             (case map_get cs (i + 1) h1 of
                (Inl e, h2) \<Rightarrow> (Inl e, h2)
              | (Inr ps, h2) \<Rightarrow> (Inr (p # ps), h2)))"

text \<open>
  The aggregate of \<open>Promise.all\<close>: one slot per element, a count of the elements still
  awaited, and the outcome once there is one. The schedule names the elements in the
  order in which they settle; an element it leaves out never settles.
\<close>

record 'a aggregate =
  slots :: "'a option list"
  remaining :: nat
  outcome :: "(error + 'a list) option"

definition all_start :: "nat \<Rightarrow> 'a aggregate" where
  "all_start n =
     \<lparr>slots = replicate n None, remaining = n,
      outcome = (if n = 0 then Some (Inr []) else None)\<rparr>"

definition all_settle :: "'a settled list \<Rightarrow> 'a aggregate \<Rightarrow> nat \<Rightarrow> 'a aggregate" where
  "all_settle ps a i =
     (if length ps \<le> i then a
      else case ps ! i of
             Rejected e \<Rightarrow> (if outcome a = None then a\<lparr>outcome := Some (Inl e)\<rparr> else a)
           | Fulfilled x \<Rightarrow>
               (if slots a ! i \<noteq> None then a
                else let vs = (slots a)[i := Some x]; r = remaining a - 1
                     in \<lparr>slots = vs, remaining = r,
                         outcome = (if r = 0 \<and> outcome a = None then Some (Inr (map the vs))
                                    else outcome a)\<rparr>))"

definition Promise_all :: "'a settled list \<Rightarrow> nat list \<Rightarrow> (error + 'a list) option" where
  "Promise_all ps schedule = outcome (foldl (all_settle ps) (all_start (length ps)) schedule)"

subsection \<open>get()\<close>

datatype result =
    Computed jsstring "component list"
  | FromCookie jsstring

fun visitorId :: "result \<Rightarrow> jsstring" where
  "visitorId (Computed v cs) = v"
| "visitorId (FromCookie v) = v"

fun Array_includes :: "'a list \<Rightarrow> 'a \<Rightarrow> bool" where
  "Array_includes [] x = False"
| "Array_includes (y # ys) x = (y = x \<or> Array_includes ys x)"

definition stable_keys :: "jsstring list" where
  "stable_keys =
     [ascii ''userAgent'', ascii ''hardwareConcurrency'', ascii ''deviceMemory'',
      ascii ''language'', ascii ''colorDepth'', ascii ''pixelRatio'', ascii ''videoCard'',
      ascii ''canvas'', ascii ''webgl'', ascii ''fonts'']"

definition stableComponents :: "component list \<Rightarrow> component list" where
  "stableComponents cs = filter (\<lambda>c. Array_includes stable_keys (key c)) cs"

text \<open>
  \<open>await Promise.all(this.components.map((c) => c.get()))\<close>. The outer \<open>None\<close> is an
  await that never ends.
\<close>

definition collect ::
  "BrowserFingerprint \<Rightarrow> nat list \<Rightarrow> host \<Rightarrow> (error + component list) option \<times> host" where
  "collect this schedule h =
     (case map_get (components this) 0 h of
        (Inl e, h1) \<Rightarrow> (Some (Inl e), h1)
      | (Inr ps, h1) \<Rightarrow> (Promise_all ps schedule, h1))"

text \<open>
  \<open>get()\<close> returns a promise: \<open>None\<close> when it stays pending, otherwise how it settles,
  beside the state the host is left in. \<open>compute\<close> is the block run when
  \<open>!visitorId\<close> holds, that is for \<open>null\<close> and for the empty string.
\<close>

definition compute ::
  "BrowserFingerprint \<Rightarrow> nat list \<Rightarrow> host \<Rightarrow> result settled option \<times> host" where
  "compute this schedule h =
     (case collect this schedule h of
        (None, h1) \<Rightarrow> (None, h1)
      | (Some (Inl e), h1) \<Rightarrow> (Some (Rejected e), h1)
      | (Some (Inr cs), h1) \<Rightarrow>
          (let v = hashComponents (stableComponents cs)
           in (Some (Fulfilled (Computed v cs)), setCookie this v h1)))"

definition get :: "BrowserFingerprint \<Rightarrow> nat list \<Rightarrow> host \<Rightarrow> result settled option \<times> host" where
  "get this schedule h =
     (let verified = verifyApiKey this
      in case getCookie this h of
           Inl e \<Rightarrow> (Some (Rejected e), h)
         | Inr None \<Rightarrow> compute this schedule h
         | Inr (Some v) \<Rightarrow>
             if v = [] then compute this schedule h
             else (Some (Fulfilled (FromCookie v)), h))"

text \<open>
  \<open>Fingerprint.load(options)\<close>, an async function without an await: its promise is
  settled when it returns. \<open>registered\<close> are the collectors it instantiates.
\<close>

definition load :: "collector list \<Rightarrow> options \<Rightarrow> BrowserFingerprint settled" where
  "load registered opts =
     (case new_BrowserFingerprint opts of
        Inl e \<Rightarrow> Rejected e
      | Inr bf \<Rightarrow> Fulfilled (foldl addComponent bf registered))"

section \<open>Vocabulary of the properties\<close>

text \<open>The signal a collector hands over, if it does not raise.\<close>

fun produces :: "collector \<Rightarrow> component option" where
  "produces (Returns x) = Some x"
| "produces (Resolves x) = Some x"
| "produces (Throws e) = None"
| "produces (Rejects e) = None"

fun raises :: "collector \<Rightarrow> error option" where
  "raises (Throws e) = Some e"
| "raises (Rejects e) = Some e"
| "raises (Returns x) = None"
| "raises (Resolves x) = None"

text \<open>
  A record name that the host stores as it is written and that percent-decoding leaves
  alone; a value of the same kind, which may be empty and may hold \<open>=\<close>.
\<close>

definition plain_name :: "jsstring \<Rightarrow> bool" where
  "plain_name n =
     (n \<noteq> [] \<and> list_all (\<lambda>c. c \<noteq> 37 \<and> c \<noteq> 59 \<and> c \<noteq> 61 \<and> \<not> is_ctl c) n
      \<and> \<not> is_wsp (hd n) \<and> \<not> is_wsp (last n))"

definition plain_value :: "jsstring \<Rightarrow> bool" where
  "plain_value v =
     (list_all (\<lambda>c. c \<noteq> 37 \<and> c \<noteq> 59 \<and> \<not> is_ctl c) v
      \<and> (v = [] \<or> (\<not> is_wsp (hd v) \<and> \<not> is_wsp (last v))))"



text \<open>The expiry the host keeps for a record written by \<open>setCookie\<close> in state \<open>h\<close>.\<close>

definition record_expiry :: "BrowserFingerprint \<Rightarrow> host \<Rightarrow> int option" where
  "record_expiry this h = map_option (\<lambda>t. t div 1000 * 1000) (expiry_date this h)"

definition unexpired_at :: "int \<Rightarrow> BrowserFingerprint \<Rightarrow> host \<Rightarrow> bool" where
  "unexpired_at t this h = (case record_expiry this h of None \<Rightarrow> True | Some e \<Rightarrow> t < e)"

section \<open>The scenario of the specification\<close>

definition signal_UA :: component where
  "signal_UA = \<lparr>key = ascii ''userAgent'', val = Str (ascii ''UA-X'')\<rparr>"

definition signal_canvas :: component where
  "signal_canvas = \<lparr>key = ascii ''canvas'', val = Str (ascii ''CANVAS-Y'')\<rparr>"

definition signal_audio :: component where
  "signal_audio = \<lparr>key = ascii ''audio'', val = Null\<rparr>"

definition config_key :: options where
  "config_key =
     \<lparr>opt_apiKey = Str (ascii ''any-string''), opt_cookieName = Undefined,
      opt_cookieDays = Undefined\<rparr>"

text \<open>\<open>{}\<close>\<close>

definition config_empty :: options where
  "config_empty = \<lparr>opt_apiKey = Undefined, opt_cookieName = Undefined, opt_cookieDays = Undefined\<rparr>"

definition scenario_session :: BrowserFingerprint where
  "scenario_session =
     \<lparr>options = config_key, apiKey = Str (ascii ''any-string''),
      cookieName = Str (ascii ''smbfjs_id''), cookieDays = Num 365,
      components = [Returns signal_UA, Resolves signal_canvas]\<rparr>"

definition empty_store :: host where
  "empty_store = \<lparr>jar = [], now = 1700000000000, calls = []\<rparr>"

definition failing_session :: BrowserFingerprint where
  "failing_session =
     scenario_session\<lparr>components := [Returns signal_UA, Rejects (Error (ascii ''boom''))]\<rparr>"


text \<open>A store in which the record of the session is there with an empty value.\<close>

definition blank_store :: host where
  "blank_store =
     \<lparr>jar = [\<lparr>cname = ascii ''smbfjs_id'', cvalue = [], expires = None\<rparr>],
      now = 1700000000000, calls = []\<rparr>"

section \<open>Properties of the identity hasher\<close>

lemma ToInt32_sint: "ToInt32 x = sint (word_of_int x :: 32 word)"
proof -
  define m where "m = x mod 2 ^ 32"
  have m: "0 \<le> m" "m < 2 ^ 32" by (simp_all add: m_def)
  have "(x + 2 ^ 31) mod 2 ^ 32 = (m + 2 ^ 31) mod 2 ^ 32"
    unfolding m_def by (simp add: mod_add_left_eq)
  also have "\<dots> = (if 2 ^ 31 \<le> m then m - 2 ^ 31 else m + 2 ^ 31)"
  proof (cases "2 ^ 31 \<le> m")
    case True
    have "m + 2 ^ 31 = m - 2 ^ 31 + 2 ^ 32" by simp
    then have "(m + 2 ^ 31) mod 2 ^ 32 = (m - 2 ^ 31 + 2 ^ 32) mod 2 ^ 32" by (rule arg_cong)
    also have "\<dots> = (m - 2 ^ 31) mod 2 ^ 32" by (simp only: mod_add_self2)
    also have "\<dots> = m - 2 ^ 31" using True m by (intro mod_pos_pos_trivial) simp_all
    finally show ?thesis using True by simp
  next
    case False
    then have "(m + 2 ^ 31) mod 2 ^ 32 = m + 2 ^ 31"
      using m by (intro mod_pos_pos_trivial) simp_all
    then show ?thesis using False by simp
  qed
  finally have e: "(x + 2 ^ 31) mod 2 ^ 32 = (if 2 ^ 31 \<le> m then m - 2 ^ 31 else m + 2 ^ 31)" .
  have "sint (word_of_int x :: 32 word) = signed_take_bit 31 x"
    by (simp add: sint_sbintrunc')
  also have "\<dots> = (x + 2 ^ 31) mod 2 ^ 32 - 2 ^ 31"
    by (simp add: signed_take_bit_eq_take_bit_shift take_bit_eq_mod)
  also have "\<dots> = ToInt32 x"
    unfolding e ToInt32_def Let_def m_def [symmetric] by simp
  finally show ?thesis by simp
qed

lemma js_bitand_self: "js_bitand x x = ToInt32 x"
  by (simp add: js_bitand_def)

lemma js_shl_5: "js_shl (sint (w :: 32 word)) 5 = sint (push_bit 5 w)"
  by (simp add: js_shl_def ToInt32_sint push_bit_eq_mult)

lemma js_step_word:
  "js_bitand (js_shl (sint w) 5 - sint w + int c) (js_shl (sint w) 5 - sint w + int c)
     = sint (hash_step (w :: 32 word) c)"
  by (simp add: js_bitand_self js_shl_5 ToInt32_sint hash_step_def)

lemma hash_loop_foldl:
  "hash_loop str i (sint (w :: 32 word)) = sint (foldl hash_step w (drop i str))"
proof (induction "length str - i" arbitrary: i w)
  case 0
  then show ?case by (subst hash_loop.simps) simp
next
  case (Suc n)
  then have lt: "i < length str" by simp
  then have d: "drop i str = str ! i # drop (Suc i) str"
    by (simp add: Cons_nth_drop_Suc)
  have "hash_loop str i (sint w) = hash_loop str (i + 1) (sint (hash_step w (str ! i)))"
    using lt by (subst hash_loop.simps) (simp add: Let_def js_step_word)
  also have "\<dots> = sint (foldl hash_step (hash_step w (str ! i)) (drop (i + 1) str))"
    using Suc.hyps(2) by (intro Suc.hyps(1)) simp
  finally show ?case by (simp add: d)
qed

lemma hash_loop_accumulator:
  "hash_loop (JSON_stringify_array vs) 0 0 = sint (hash_accumulator vs)"
  using hash_loop_foldl [of "JSON_stringify_array vs" 0 0]
  by (simp add: hash_accumulator_def)

lemma digit_char_lower_hex: "d < 16 \<Longrightarrow> lower_hex (digit_char d)"
  by (simp add: lower_hex_def digit_char_def)


lemma radix_digits_16_nonempty: "radix_digits 16 n \<noteq> []"
  by (subst radix_digits.simps) simp

lemma radix_digits_16_lower_hex: "list_all lower_hex (radix_digits 16 n)"
proof (induction n rule: less_induct)
  case (less n)
  show ?case
  proof (cases "n < 16")
    case True
    then show ?thesis by (subst radix_digits.simps) (simp add: digit_char_lower_hex)
  next
    case False
    then have "n div 16 < n" by simp
    then have "list_all lower_hex (radix_digits 16 (n div 16))" by (rule less.IH)
    then show ?thesis using False
      by (subst radix_digits.simps) (simp add: digit_char_lower_hex)
  qed
qed




lemma hashComponents_accumulator:
  "hashComponents cs = Number_toString 16 (sint (hash_accumulator (map val cs)))"
  by (simp add: hashComponents_def Let_def hash_loop_accumulator)

subsection \<open>The scenario of the specification\<close>

lemma scenario_text:
  "JSON_stringify_array [Str (ascii ''UA-X''), Str (ascii ''CANVAS-Y'')]
     = ascii ''[\"UA-X\",\"CANVAS-Y\"]''"
  by (simp add: JSON_stringify_array_def ascii_def QuoteJSONString_def is_lead_def
      is_trail_def quote_unit_def)

lemma scenario_accumulator:
  "hash_accumulator [Str (ascii ''UA-X''), Str (ascii ''CANVAS-Y'')] = - 274883719"
  unfolding hash_accumulator_def scenario_text by (simp add: hash_step_def ascii_def)

lemma scenario_hex: "Number_toString 16 (- 274883719) = ascii ''-10626487''"
  by (simp add: Number_toString_def radix_digits.simps digit_char_def ascii_def)



section \<open>Properties of the stable subset selector\<close>

lemma Array_includes_set: "Array_includes xs x \<longleftrightarrow> x \<in> set xs"
  by (induction xs) auto

text \<open>
  C4. The selector returns exactly the signals whose key is one of the ten stable keys,
  in the order of the list it is given; a stable key without a signal is simply absent,
  and there is no error case.
\<close>

theorem stableComponents_spec:
  "stableComponents cs =
     filter (\<lambda>c. key c \<in> {ascii ''userAgent'', ascii ''hardwareConcurrency'',
                          ascii ''deviceMemory'', ascii ''language'', ascii ''colorDepth'',
                          ascii ''pixelRatio'', ascii ''videoCard'', ascii ''canvas'',
                          ascii ''webgl'', ascii ''fonts''}) cs
   \<and> subseq (stableComponents cs) cs"
proof -
  have "set stable_keys = {ascii ''userAgent'', ascii ''hardwareConcurrency'',
                          ascii ''deviceMemory'', ascii ''language'', ascii ''colorDepth'',
                          ascii ''pixelRatio'', ascii ''videoCard'', ascii ''canvas'',
                          ascii ''webgl'', ascii ''fonts''}"
    unfolding stable_keys_def by (simp only: list.set)
  then show ?thesis
    by (simp add: stableComponents_def Array_includes_set)
qed


theorem stableComponents_spec_witness:
  "stableComponents [signal_canvas, signal_audio, signal_UA] = [signal_canvas, signal_UA]
   \<and> subseq [signal_canvas, signal_UA] [signal_canvas, signal_audio, signal_UA]
   \<and> stableComponents [] = []"
  using stableComponents_spec [of "[signal_canvas, signal_audio, signal_UA]"]
    stableComponents_spec [of "[]"]
  by (clarsimp simp: signal_UA_def signal_canvas_def signal_audio_def ascii_def)

section \<open>Properties of construction\<close>

lemma load_scenario:
  "load [Returns signal_UA, Resolves signal_canvas] config_key = Fulfilled scenario_session"
  by (simp add: load_def new_BrowserFingerprint_def config_key_def js_or_def Let_def
      addComponent_def scenario_session_def ascii_def)

text \<open>
  C6. Without a truthy \<open>apiKey\<close> the constructor throws the configuration error, and
  \<open>load\<close>, which runs the constructor first, returns a promise that is already rejected
  with it, whatever collectors it would have registered: there is no session and nothing
  has run.
\<close>

theorem load_requires_apiKey:
  "\<not> truthy (opt_apiKey opts) \<Longrightarrow>
     new_BrowserFingerprint opts = Inl (Error (ascii ''API key is required''))
     \<and> load registered opts = Rejected (Error (ascii ''API key is required''))"
  by (simp add: load_def new_BrowserFingerprint_def Let_def)

theorem load_requires_apiKey_witness:
  "\<not> truthy (opt_apiKey config_empty)
   \<and> new_BrowserFingerprint config_empty = Inl (Error (ascii ''API key is required''))
   \<and> load [Returns signal_UA, Resolves signal_canvas] config_empty
       = Rejected (Error (ascii ''API key is required''))"
  using load_requires_apiKey [of config_empty "[Returns signal_UA, Resolves signal_canvas]"]
  by (simp add: config_empty_def)

text \<open>
  C9. A falsy \<open>cookieName\<close> or \<open>cookieDays\<close> is replaced by the default, and the
  session is the one built without the field, up to the copy of the configuration it
  keeps; a lifetime that was falsy, such as 0 days, gives an expiry 365 days ahead.
\<close>

theorem falsy_defaults:
  assumes "new_BrowserFingerprint opts = Inr s"
  shows "(\<not> truthy (opt_cookieName opts) \<longrightarrow>
            cookieName s = Str (ascii ''smbfjs_id'')
            \<and> new_BrowserFingerprint (opts\<lparr>opt_cookieName := Undefined\<rparr>)
                = Inr (s\<lparr>options := opts\<lparr>opt_cookieName := Undefined\<rparr>\<rparr>))
       \<and> (\<not> truthy (opt_cookieDays opts) \<longrightarrow>
            cookieDays s = Num 365
            \<and> new_BrowserFingerprint (opts\<lparr>opt_cookieDays := Undefined\<rparr>)
                = Inr (s\<lparr>options := opts\<lparr>opt_cookieDays := Undefined\<rparr>\<rparr>)
            \<and> expiry_date s h = TimeClip (now h + 365 * 24 * 60 * 60 * 1000))"
  using assms
  by (auto simp: new_BrowserFingerprint_def Let_def js_or_def expiry_date_def
      split: if_splits)

theorem falsy_defaults_witness:
  "new_BrowserFingerprint (config_key\<lparr>opt_cookieName := Str [], opt_cookieDays := Num 0\<rparr>)
     = Inr (scenario_session\<lparr>components := [],
              options := config_key\<lparr>opt_cookieName := Str [], opt_cookieDays := Num 0\<rparr>\<rparr>)
   \<and> new_BrowserFingerprint (config_key\<lparr>opt_cookieName := Null, opt_cookieDays := Bool False\<rparr>)
     = Inr (scenario_session\<lparr>components := [],
              options := config_key\<lparr>opt_cookieName := Null, opt_cookieDays := Bool False\<rparr>\<rparr>)
   \<and> \<not> truthy (Str []) \<and> \<not> truthy (Num 0) \<and> \<not> truthy Null \<and> \<not> truthy (Bool False)
   \<and> cookieName (scenario_session\<lparr>components := []\<rparr>) = Str (ascii ''smbfjs_id'')
   \<and> cookieDays (scenario_session\<lparr>components := []\<rparr>) = Num 365
   \<and> expiry_date (scenario_session\<lparr>components := [],
              options := config_key\<lparr>opt_cookieName := Str [], opt_cookieDays := Num 0\<rparr>\<rparr>)
         empty_store = Some (1700000000000 + 31536000000)"
proof -
  let ?o1 = "config_key\<lparr>opt_cookieName := Str [], opt_cookieDays := Num 0\<rparr>"
  let ?o2 = "config_key\<lparr>opt_cookieName := Null, opt_cookieDays := Bool False\<rparr>"
  have n1: "new_BrowserFingerprint ?o1 = Inr (scenario_session\<lparr>components := [], options := ?o1\<rparr>)"
    by (simp add: new_BrowserFingerprint_def Let_def js_or_def config_key_def
        scenario_session_def ascii_def)
  have n2: "new_BrowserFingerprint ?o2 = Inr (scenario_session\<lparr>components := [], options := ?o2\<rparr>)"
    by (simp add: new_BrowserFingerprint_def Let_def js_or_def config_key_def
        scenario_session_def ascii_def)
  have f: "\<not> truthy (opt_cookieName ?o1)" "\<not> truthy (opt_cookieDays ?o1)"
    by (simp_all add: config_key_def)
  have "expiry_date (scenario_session\<lparr>components := [], options := ?o1\<rparr>) empty_store
          = TimeClip (now empty_store + 365 * 24 * 60 * 60 * 1000)"
    using falsy_defaults [OF n1, of empty_store] f by blast
  then show ?thesis
    using n1 n2 by (simp add: TimeClip_def empty_store_def scenario_session_def)
qed

section \<open>Properties of the collection phase\<close>

lemma components_foldl_addComponent:
  "components (foldl addComponent bf cs) = components bf @ cs"
  by (induction cs arbitrary: bf) (simp_all add: addComponent_def)

lemma load_components:
  "load registry opts = Fulfilled s \<Longrightarrow> components s = registry"
  by (auto simp: load_def new_BrowserFingerprint_def Let_def components_foldl_addComponent
      split: sum.splits if_splits)

lemma map_get_frame:
  "jar (snd (map_get cs i h)) = jar h \<and> now (snd (map_get cs i h)) = now h"
proof (induction cs arbitrary: i h)
  case Nil
  show ?case by simp
next
  case (Cons c cs)
  show ?case
    using Cons.IH [of "i + 1" "h\<lparr>calls := calls h @ [i]\<rparr>"]
    by (auto simp: Let_def split: sum.splits prod.splits)
qed

lemma map_get_produces:
  "list_all (\<lambda>c. produces c \<noteq> None) cs \<Longrightarrow>
     \<exists>xs. map Some xs = map produces cs
       \<and> map_get cs i h = (Inr (map Fulfilled xs), h\<lparr>calls := calls h @ [i ..< i + length cs]\<rparr>)"
proof (induction cs arbitrary: i h)
  case Nil
  show ?case by simp
next
  case (Cons c cs)
  from Cons.prems obtain x where x: "produces c = Some x" and rest: "list_all (\<lambda>c. produces c \<noteq> None) cs"
    by auto
  from x have inv: "invoke c = Inr (Fulfilled x)"
    by (cases c) simp_all
  from Cons.IH [OF rest, of "i + 1" "h\<lparr>calls := calls h @ [i]\<rparr>"]
  obtain xs where xs: "map Some xs = map produces cs"
    and m: "map_get cs (i + 1) (h\<lparr>calls := calls h @ [i]\<rparr>)
             = (Inr (map Fulfilled xs), h\<lparr>calls := calls h @ [i] @ [i + 1 ..< i + 1 + length cs]\<rparr>)"
    by auto
  have "[i ..< i + length (c # cs)] = i # [Suc i ..< i + length (c # cs)]"
    by (rule upt_conv_Cons) simp
  then have "[i] @ [i + 1 ..< i + 1 + length cs] = [i ..< i + length (c # cs)]"
    by simp
  then have m': "map_get cs (i + 1) (h\<lparr>calls := calls h @ [i]\<rparr>)
             = (Inr (map Fulfilled xs), h\<lparr>calls := calls h @ [i ..< i + length (c # cs)]\<rparr>)"
    using m by simp
  have "map Some (x # xs) = map produces (c # cs)" using x xs by simp
  moreover have "map_get (c # cs) i h
      = (Inr (map Fulfilled (x # xs)), h\<lparr>calls := calls h @ [i ..< i + length (c # cs)]\<rparr>)"
    using inv m' by (simp add: Let_def)
  ultimately show ?case by blast
qed

subsection \<open>Promise.all when every element is fulfilled\<close>

lemma all_fulfilled_invariant:
  fixes xs :: "'a list"
  defines "a sched \<equiv> foldl (all_settle (map Fulfilled xs)) (all_start (length xs)) sched"
  shows "length (slots (a sched)) = length xs
       \<and> (\<forall>i < length xs. slots (a sched) ! i = (if i \<in> set sched then Some (xs ! i) else None))
       \<and> remaining (a sched) = card ({..<length xs} - set sched)
       \<and> outcome (a sched) = (if {..<length xs} \<subseteq> set sched then Some (Inr xs) else None)"
proof (induction sched rule: rev_induct)
  case Nil
  show ?case by (auto simp: a_def all_start_def)
next
  case (snoc i sched)
  let ?n = "length xs"
  let ?b = "a sched"
  have step: "a (sched @ [i]) = all_settle (map Fulfilled xs) ?b i"
    by (simp add: a_def)
  from snoc.IH have len: "length (slots ?b) = ?n"
    and sl: "\<And>k. k < ?n \<Longrightarrow> slots ?b ! k = (if k \<in> set sched then Some (xs ! k) else None)"
    and rem: "remaining ?b = card ({..<?n} - set sched)"
    and out: "outcome ?b = (if {..<?n} \<subseteq> set sched then Some (Inr xs) else None)"
    by auto
  show ?case
  proof (cases "i < ?n \<and> i \<notin> set sched")
    case False
    then have same: "all_settle (map Fulfilled xs) ?b i = ?b"
      using sl [of i] by (auto simp: all_settle_def)
    have d: "{..<?n} - set (sched @ [i]) = {..<?n} - set sched"
      using False by auto
    have s: "{..<?n} \<subseteq> set (sched @ [i]) \<longleftrightarrow> {..<?n} \<subseteq> set sched"
      using False by auto
    show ?thesis
      unfolding step same d s using len sl rem out False by auto
  next
    case True
    then have i: "i < ?n" and fresh: "i \<notin> set sched" by auto
    let ?vs = "(slots ?b)[i := Some (xs ! i)]"
    let ?r = "remaining ?b - 1"
    have none: "slots ?b ! i = None" using sl [OF i] fresh by simp
    have outn: "outcome ?b = None" using out i fresh by auto
    have new: "all_settle (map Fulfilled xs) ?b i
        = \<lparr>slots = ?vs, remaining = ?r,
           outcome = (if ?r = 0 then Some (Inr (map the ?vs)) else None)\<rparr>"
      using i none outn by (simp add: all_settle_def Let_def)
    have d: "{..<?n} - set (sched @ [i]) = ({..<?n} - set sched) - {i}" by auto
    have mem: "i \<in> {..<?n} - set sched" using i fresh by simp
    have r: "?r = card ({..<?n} - set (sched @ [i]))"
      unfolding d rem using mem by (simp add: card_Diff_singleton)
    have vs: "\<And>k. k < ?n \<Longrightarrow> ?vs ! k = (if k \<in> set (sched @ [i]) then Some (xs ! k) else None)"
      using len sl i by (auto simp: nth_list_update)
    have zero: "?r = 0 \<longleftrightarrow> {..<?n} \<subseteq> set (sched @ [i])"
    proof -
      have "finite ({..<?n} - set (sched @ [i]))" by simp
      then have "card ({..<?n} - set (sched @ [i])) = 0 \<longleftrightarrow> {..<?n} - set (sched @ [i]) = {}"
        by (rule card_0_eq)
      then show ?thesis unfolding r by blast
    qed
    have full: "map the ?vs = xs" if "{..<?n} \<subseteq> set (sched @ [i])"
    proof (rule nth_equalityI)
      show "length (map the ?vs) = length xs" using len by simp
    next
      fix k assume "k < length (map the ?vs)"
      then have k: "k < ?n" using len by simp
      then have "k \<in> set (sched @ [i])" using that by blast
      then have "?vs ! k = Some (xs ! k)" using vs [OF k] by simp
      then show "map the ?vs ! k = xs ! k" using k len by simp
    qed
    show ?thesis
      unfolding step new using len vs r zero full by auto
  qed
qed

lemma Promise_all_fulfilled:
  "{..<length xs} \<subseteq> set schedule \<Longrightarrow> Promise_all (map Fulfilled xs) schedule = Some (Inr xs)"
  using all_fulfilled_invariant [of xs schedule] by (simp add: Promise_all_def)

lemma collect_produces:
  assumes "list_all (\<lambda>c. produces c \<noteq> None) (components s)"
    and "{..<length (components s)} \<subseteq> set schedule"
  shows "\<exists>cs. map Some cs = map produces (components s)
     \<and> collect s schedule h
         = (Some (Inr cs), h\<lparr>calls := calls h @ [0 ..< length (components s)]\<rparr>)"
proof -
  from map_get_produces [OF assms(1), of 0 h]
  obtain xs where xs: "map Some xs = map produces (components s)"
    and m: "map_get (components s) 0 h
        = (Inr (map Fulfilled xs), h\<lparr>calls := calls h @ [0 ..< length (components s)]\<rparr>)"
    by auto
  from xs have "length xs = length (components s)"
    by (metis length_map)
  then have "Promise_all (map Fulfilled xs) schedule = Some (Inr xs)"
    using assms(2) by (intro Promise_all_fulfilled) simp
  then show ?thesis using xs m by (simp add: collect_def)
qed

text \<open>
  C3. For a session loaded with a registry none of whose collectors raises, and for any
  order in which the collectors settle, as long as each of them does, the collection
  phase yields the signals of the registry, one per collector and in registration order,
  whatever their values are.
\<close>

theorem collect_registry_order:
  assumes "load registry opts = Fulfilled s"
    and "list_all (\<lambda>c. produces c \<noteq> None) registry"
    and "{..<length registry} \<subseteq> set schedule"
  shows "\<exists>cs. fst (collect s schedule h) = Some (Inr cs)
           \<and> length cs = length registry
           \<and> map Some cs = map produces registry"
proof -
  have c: "components s = registry" using assms(1) by (rule load_components)
  from collect_produces [of s schedule h] assms(2,3) c
  obtain cs where "map Some cs = map produces registry"
    and "collect s schedule h = (Some (Inr cs), h\<lparr>calls := calls h @ [0 ..< length registry]\<rparr>)"
    by auto
  moreover from this(1) have "length cs = length registry" by (metis length_map)
  ultimately show ?thesis by auto
qed

theorem collect_registry_order_witness:
  "fst (collect scenario_session [1, 0] empty_store) = Some (Inr [signal_UA, signal_canvas])
   \<and> fst (collect scenario_session [0, 1, 0] empty_store) = Some (Inr [signal_UA, signal_canvas])"
proof -
  have p: "list_all (\<lambda>c. produces c \<noteq> None) [Returns signal_UA, Resolves signal_canvas]"
    by simp
  have s1: "{..<length [Returns signal_UA, Resolves signal_canvas]} \<subseteq> set [1, 0 :: nat]"
    by auto
  have s2: "{..<length [Returns signal_UA, Resolves signal_canvas]} \<subseteq> set [0, 1, 0 :: nat]"
    by auto
  from collect_registry_order [OF load_scenario p s1, of empty_store]
  have "fst (collect scenario_session [1, 0] empty_store) = Some (Inr [signal_UA, signal_canvas])"
    by auto
  moreover from collect_registry_order [OF load_scenario p s2, of empty_store]
  have "fst (collect scenario_session [0, 1, 0] empty_store) = Some (Inr [signal_UA, signal_canvas])"
    by auto
  ultimately show ?thesis by simp
qed

subsection \<open>A collector that raises\<close>

lemma map_get_cases:
  "case fst (map_get cs i h) of
     Inl e \<Rightarrow> Throws e \<in> set cs
   | Inr ps \<Rightarrow> map Inr ps = map invoke cs"
proof (induction cs arbitrary: i h)
  case Nil
  show ?case by simp
next
  case (Cons c cs)
  show ?case
    using Cons.IH [of "i + 1" "h\<lparr>calls := calls h @ [i]\<rparr>"]
    by (cases c) (auto simp: Let_def split: sum.splits prod.splits)
qed

lemma invoke_Rejected: "invoke c = Inr (Rejected e) \<Longrightarrow> c = Rejects e"
  by (cases c) simp_all

lemma all_rejected_invariant:
  fixes ps :: "'a settled list"
  assumes j: "j < length ps" and rj: "ps ! j = Rejected e"
  defines "a sched \<equiv> foldl (all_settle ps) (all_start (length ps)) sched"
  shows "length (slots (a sched)) = length ps
       \<and> slots (a sched) ! j = None
       \<and> remaining (a sched) = card {k. k < length ps \<and> slots (a sched) ! k = None}
       \<and> (case outcome (a sched) of
            None \<Rightarrow> \<forall>i \<in> set sched. i < length ps \<longrightarrow> (\<forall>e'. ps ! i \<noteq> Rejected e')
          | Some (Inl e') \<Rightarrow> \<exists>i < length ps. ps ! i = Rejected e'
          | Some (Inr xs) \<Rightarrow> False)"
proof (induction sched rule: rev_induct)
  case Nil
  have "{k. k < length ps \<and> replicate (length ps) None ! k = (None :: 'a option)} = {..<length ps}"
    by auto
  moreover have "ps \<noteq> []" using j by auto
  ultimately show ?case using j by (simp add: a_def all_start_def)
next
  case (snoc i sched)
  let ?n = "length ps"
  let ?b = "a sched"
  have step: "a (sched @ [i]) = all_settle ps ?b i"
    by (simp add: a_def)
  from snoc.IH have len: "length (slots ?b) = ?n"
    and sj: "slots ?b ! j = None"
    and rem: "remaining ?b = card {k. k < ?n \<and> slots ?b ! k = None}"
    and out: "case outcome ?b of
            None \<Rightarrow> \<forall>i \<in> set sched. i < ?n \<longrightarrow> (\<forall>e'. ps ! i \<noteq> Rejected e')
          | Some (Inl e') \<Rightarrow> \<exists>i < ?n. ps ! i = Rejected e'
          | Some (Inr xs) \<Rightarrow> False"
    by auto
  consider (beyond) "?n \<le> i"
    | (rej) e' where "i < ?n" "ps ! i = Rejected e'"
    | (old) x where "i < ?n" "ps ! i = Fulfilled x" "slots ?b ! i \<noteq> None"
    | (new) x where "i < ?n" "ps ! i = Fulfilled x" "slots ?b ! i = None"
    by atomize_elim (cases "ps ! i", auto simp: not_le)
  then show ?case
  proof cases
    case beyond
    then have "all_settle ps ?b i = ?b" by (simp add: all_settle_def)
    then show ?thesis
      unfolding step using len sj rem out beyond
      by (auto split: option.splits sum.splits)
  next
    case rej
    then have "all_settle ps ?b i = (if outcome ?b = None then ?b\<lparr>outcome := Some (Inl e')\<rparr> else ?b)"
      by (simp add: all_settle_def)
    then show ?thesis
      unfolding step using len sj rem out rej
      by (auto split: option.splits sum.splits)
  next
    case old
    then have "all_settle ps ?b i = ?b" by (simp add: all_settle_def)
    then show ?thesis
      unfolding step using len sj rem out old
      by (auto split: option.splits sum.splits)
  next
    case new
    let ?vs = "(slots ?b)[i := Some x]"
    let ?r = "remaining ?b - 1"
    have ij: "i \<noteq> j" using new(2) rj by auto
    have vj: "?vs ! j = None" using sj ij by simp
    have set_eq: "{k. k < ?n \<and> ?vs ! k = None} = {k. k < ?n \<and> slots ?b ! k = None} - {i}"
      using len new(1) by (auto simp: nth_list_update)
    have fin: "finite {k. k < ?n \<and> slots ?b ! k = None}" by simp
    have "i \<in> {k. k < ?n \<and> slots ?b ! k = None}" using new by simp
    then have r: "?r = card {k. k < ?n \<and> ?vs ! k = None}"
      unfolding set_eq rem by (simp add: card_Diff_singleton)
    have "j \<in> {k. k < ?n \<and> ?vs ! k = None}" using j vj by simp
    moreover have "finite {k. k < ?n \<and> ?vs ! k = None}" by simp
    ultimately have "card {k. k < ?n \<and> ?vs ! k = None} \<noteq> 0"
      by (metis card_0_eq empty_iff)
    then have r0: "?r \<noteq> 0" using r by simp
    have eq: "all_settle ps ?b i = \<lparr>slots = ?vs, remaining = ?r, outcome = outcome ?b\<rparr>"
      using new r0 by (simp add: all_settle_def Let_def)
    show ?thesis
      unfolding step eq using len vj r out new(1,2)
      by (auto split: option.splits sum.splits)
  qed
qed

lemma Promise_all_rejected:
  assumes "j < length ps" and "ps ! j = Rejected e" and "j \<in> set schedule"
  shows "\<exists>e' i. i < length ps \<and> ps ! i = Rejected e' \<and> Promise_all ps schedule = Some (Inl e')"
  using all_rejected_invariant [OF assms(1,2), of schedule] assms
  by (auto simp: Promise_all_def split: option.splits sum.splits)

lemma collect_raises:
  assumes i: "i < length (components s)"
    and r: "components s ! i = Throws e \<or> (components s ! i = Rejects e \<and> i \<in> set schedule)"
  shows "\<exists>e' h'. collect s schedule h = (Some (Inl e'), h')
           \<and> Some e' \<in> raises ` set (components s) \<and> jar h' = jar h"
proof -
  let ?cs = "components s"
  obtain res h1 where m: "map_get ?cs 0 h = (res, h1)" by (cases "map_get ?cs 0 h")
  have frame: "jar h1 = jar h" using map_get_frame [of ?cs 0 h] m by simp
  show ?thesis
  proof (cases res)
    case (Inl e')
    then have "Throws e' \<in> set ?cs" using map_get_cases [of ?cs 0 h] m by simp
    then have "Some e' \<in> raises ` set ?cs" by force
    then show ?thesis using m Inl frame by (simp add: collect_def)
  next
    case (Inr ps)
    then have ps: "map Inr ps = map invoke ?cs" using map_get_cases [of ?cs 0 h] m by simp
    then have len: "length ps = length ?cs" by (metis length_map)
    have nth: "\<And>k. k < length ?cs \<Longrightarrow> invoke (?cs ! k) = Inr (ps ! k)"
      using ps len by (metis nth_map)
    have "?cs ! i \<noteq> Throws e" using nth [OF i] by auto
    then have ri: "?cs ! i = Rejects e" and sch: "i \<in> set schedule" using r by auto
    have "ps ! i = Rejected e" using nth [OF i] ri by simp
    from Promise_all_rejected [OF _ this sch] i len
    obtain e' k where k: "k < length ps" "ps ! k = Rejected e'"
      and pa: "Promise_all ps schedule = Some (Inl e')" by auto
    have "?cs ! k = Rejects e'" using nth [of k] k len by (simp add: invoke_Rejected)
    then have "Some e' \<in> raises ` set ?cs"
      using k(1) len by (metis image_eqI nth_mem raises.simps(2))
    then show ?thesis using m Inr pa frame by (simp add: collect_def)
  qed
qed

text \<open>
  C8. When a collector of the registry raises, by throwing or through a promise that is
  rejected, the collection phase yields no list: it fails with the error of a collector
  that raised, which is that collector's when no other one raises; \<open>get()\<close> on a
  cache miss is rejected with this error and writes no record.
\<close>

theorem collect_fail_fast:
  assumes "i < length (components s)"
    and "components s ! i = Throws e \<or> (components s ! i = Rejects e \<and> i \<in> set schedule)"
  shows "\<exists>e' h'. collect s schedule h = (Some (Inl e'), h')
           \<and> Some e' \<in> raises ` set (components s)
           \<and> jar h' = jar h
           \<and> (getCookie s h = Inr None \<or> getCookie s h = Inr (Some [])
                \<longrightarrow> get s schedule h = (Some (Rejected e'), h'))
           \<and> ((\<forall>c \<in> set (components s). raises c = None \<or> raises c = Some e) \<longrightarrow> e' = e)"
proof -
  from collect_raises [OF assms, of h]
  obtain e' h' where c: "collect s schedule h = (Some (Inl e'), h')"
    and e': "Some e' \<in> raises ` set (components s)" and f: "jar h' = jar h"
    by auto
  have "compute s schedule h = (Some (Rejected e'), h')"
    using c by (simp add: compute_def)
  then have "getCookie s h = Inr None \<or> getCookie s h = Inr (Some [])
                \<longrightarrow> get s schedule h = (Some (Rejected e'), h')"
    by (auto simp: get_def Let_def)
  moreover have "(\<forall>c \<in> set (components s). raises c = None \<or> raises c = Some e) \<longrightarrow> e' = e"
    using e' by auto
  ultimately show ?thesis using c e' f by blast
qed

lemma decodeURIComponent_Nil: "decodeURIComponent [] = Inr []"
  by (simp add: decodeURIComponent_def)

lemma getCookie_empty_jar: "jar h = [] \<Longrightarrow> getCookie s h = Inr None"
  by (simp add: getCookie_def document_cookie_def decodeURIComponent_Nil Let_def)

theorem collect_fail_fast_witness:
  "fst (get failing_session [0, 1] empty_store) = Some (Rejected (Error (ascii ''boom'')))
   \<and> jar (snd (get failing_session [0, 1] empty_store)) = []"
proof -
  have c: "components failing_session = [Returns signal_UA, Rejects (Error (ascii ''boom''))]"
    by (simp add: failing_session_def)
  have 1: "(1::nat) < length (components failing_session)" by (simp add: c)
  have 2: "components failing_session ! 1 = Throws (Error (ascii ''boom''))
       \<or> (components failing_session ! 1 = Rejects (Error (ascii ''boom'')) \<and> 1 \<in> set [0, 1 :: nat])"
    by (simp add: c)
  have g: "getCookie failing_session empty_store = Inr None"
    by (rule getCookie_empty_jar) (simp add: empty_store_def)
  have u: "\<forall>c \<in> set (components failing_session).
             raises c = None \<or> raises c = Some (Error (ascii ''boom''))"
    by (simp add: c)
  from collect_fail_fast [OF 1 2, of empty_store] g u
  obtain h' where "get failing_session [0, 1] empty_store = (Some (Rejected (Error (ascii ''boom''))), h')"
    and "jar h' = jar empty_store"
    by blast
  then show ?thesis by (simp add: empty_store_def)
qed

section \<open>Properties of the identity store\<close>

subsection \<open>Percent-decoding\<close>









subsection \<open>Splitting and searching\<close>







subsection \<open>Writing a record\<close>

lemma trim_wsp_id:
  assumes "s = [] \<or> (\<not> is_wsp (hd s) \<and> \<not> is_wsp (last s))"
  shows "trim_wsp s = s"
proof (cases "s = []")
  case True
  then show ?thesis by (simp add: trim_wsp_def)
next
  case False
  with assms have h: "\<not> is_wsp (hd s)" and l: "\<not> is_wsp (last s)" by auto
  have 1: "dropWhile is_wsp s = s" using h by (simp add: dropWhile_eq_self_iff)
  have "hd (rev s) = last s" using False by (simp add: hd_rev)
  then have 2: "dropWhile is_wsp (rev s) = rev s" using l by (simp add: dropWhile_eq_self_iff)
  show ?thesis by (simp add: trim_wsp_def 1 2)
qed

lemma set_document_cookie_plain:
  assumes n: "plain_name n" and v: "plain_value v"
  shows "set_document_cookie
           \<lparr>name_value = n @ 61 # v, expires_attr = e, path_attr = p, sameSite_attr = q\<rparr> h
         = h\<lparr>jar := store_cookie (now h)
                 \<lparr>cname = n, cvalue = v, expires = map_option (\<lambda>t. t div 1000 * 1000) e\<rparr>
                 (jar h)\<rparr>"
proof -
  from n have n0: "n \<noteq> []" and n59: "59 \<notin> set n" and n61: "61 \<notin> set n"
    and nctl: "\<not> list_ex is_ctl n" and ntrim: "trim_wsp n = n"
    by (auto simp: plain_name_def list_all_iff list_ex_iff intro: trim_wsp_id)
  from v have v59: "59 \<notin> set v" and vctl: "\<not> list_ex is_ctl v" and vtrim: "trim_wsp v = v"
    by (auto simp: plain_value_def list_all_iff list_ex_iff intro: trim_wsp_id)
  have pair: "takeWhile (\<lambda>c. c \<noteq> 59) (n @ 61 # v) = n @ 61 # v"
    using n59 v59 by (intro takeWhile_eq_all_conv [THEN iffD2]) auto
  have "takeWhile (\<lambda>c. c \<noteq> 61) (n @ 61 # v) = n @ takeWhile (\<lambda>c. c \<noteq> 61) (61 # v)"
    by (rule takeWhile_append2) (use n61 in auto)
  then have nm: "takeWhile (\<lambda>c. c \<noteq> 61) (n @ 61 # v) = n"
    by simp
  have "dropWhile (\<lambda>c. c \<noteq> 61) (n @ 61 # v) = dropWhile (\<lambda>c. c \<noteq> 61) (61 # v)"
    by (rule dropWhile_append2) (use n61 in auto)
  then have vl: "tl (dropWhile (\<lambda>c. c \<noteq> 61) (n @ 61 # v)) = v"
    by simp
  have ctl: "\<not> list_ex is_ctl (n @ 61 # v)"
    using nctl vctl by (simp add: is_ctl_def)
  show ?thesis
    using n0 ctl
    by (simp add: set_document_cookie_def Let_def pair nm vl ntrim vtrim)
qed

lemma setCookie_plain:
  "plain_name (ToString (cookieName s)) \<Longrightarrow> plain_value v \<Longrightarrow>
     setCookie s v h
       = h\<lparr>jar := store_cookie (now h)
               \<lparr>cname = ToString (cookieName s), cvalue = v, expires = record_expiry s h\<rparr>
               (jar h)\<rparr>"
  by (simp add: setCookie_def set_document_cookie_plain record_expiry_def)

lemma store_cookie_shape:
  "alive t c \<Longrightarrow>
     \<exists>A B. store_cookie t c J = A @ c # B
       \<and> set A \<subseteq> {d \<in> set J. cname d \<noteq> cname c}
       \<and> set B \<subseteq> {d \<in> set J. cname d \<noteq> cname c}"
proof (induction J)
  case Nil
  then show ?case by simp
next
  case (Cons d J)
  show ?case
  proof (cases "cname d = cname c")
    case True
    have "store_cookie t c (d # J) = [] @ c # filter (\<lambda>x. cname x \<noteq> cname c) J"
      using True Cons.prems by simp
    moreover have "set (filter (\<lambda>x. cname x \<noteq> cname c) J) \<subseteq> {x \<in> set (d # J). cname x \<noteq> cname c}"
      by auto
    ultimately show ?thesis
      by (intro exI [of _ "[]"] exI [of _ "filter (\<lambda>x. cname x \<noteq> cname c) J"]) simp
  next
    case False
    from Cons.IH [OF Cons.prems] obtain A B where
      s: "store_cookie t c J = A @ c # B"
      and A: "set A \<subseteq> {x \<in> set J. cname x \<noteq> cname c}"
      and B: "set B \<subseteq> {x \<in> set J. cname x \<noteq> cname c}" by blast
    have "store_cookie t c (d # J) = (d # A) @ c # B" using False s by simp
    moreover have "set (d # A) \<subseteq> {x \<in> set (d # J). cname x \<noteq> cname c}"
      using A False by auto
    moreover have "set B \<subseteq> {x \<in> set (d # J). cname x \<noteq> cname c}"
      using B by auto
    ultimately show ?thesis by blast
  qed
qed

subsection \<open>Reading a record\<close>






subsection \<open>Identifiers are plain values\<close>

lemma lower_hex_plain:
  "lower_hex c \<Longrightarrow> c \<noteq> 37 \<and> c \<noteq> 59 \<and> \<not> is_ctl c \<and> \<not> is_wsp c"
  by (auto simp: lower_hex_def is_ctl_def is_wsp_def)

lemma plain_value_digits:
  assumes "ds \<noteq> []" and "list_all lower_hex ds"
  shows "plain_value ds" and "plain_value (45 # ds)"
proof -
  have all: "\<And>c. c \<in> set ds \<Longrightarrow> c \<noteq> 37 \<and> c \<noteq> 59 \<and> \<not> is_ctl c \<and> \<not> is_wsp c"
    using assms(2) by (auto simp: list_all_iff dest: lower_hex_plain)
  have "hd ds \<in> set ds" "last ds \<in> set ds" using assms(1) by simp_all
  then have ends: "\<not> is_wsp (hd ds)" "\<not> is_wsp (last ds)" using all by blast+
  show "plain_value ds"
    using all ends by (auto simp: plain_value_def list_all_iff)
  show "plain_value (45 # ds)"
    using all ends assms(1) by (auto simp: plain_value_def list_all_iff is_ctl_def is_wsp_def)
qed

lemma plain_value_toString: "plain_value (Number_toString 16 x)"
  using plain_value_digits [OF radix_digits_16_nonempty radix_digits_16_lower_hex]
  by (simp add: Number_toString_def)

lemma plain_value_hashComponents: "plain_value (hashComponents cs)"
  by (simp add: hashComponents_accumulator plain_value_toString)

lemma hashComponents_not_Nil: "hashComponents cs \<noteq> []"
  by (simp add: hashComponents_accumulator Number_toString_def radix_digits_16_nonempty)

subsection \<open>Evaluating the scenario\<close>

lemmas eval_defs = setCookie_def set_document_cookie_def expiry_date_def TimeClip_def
  trim_wsp_def is_wsp_def is_ctl_def alive_def render_def document_cookie_def getCookie_def
  decodeURIComponent_def ParseHexOctet_def hex_digit_def Let_def ascii_def
  scenario_session_def empty_store_def


lemma scenario_stable:
  "stableComponents [signal_UA, signal_canvas] = [signal_UA, signal_canvas]"
  by (simp add: stableComponents_def stable_keys_def signal_UA_def signal_canvas_def ascii_def)

lemma scenario_identifier:
  "hashComponents (stableComponents [signal_UA, signal_canvas]) = ascii ''-10626487''"
  unfolding scenario_stable
  by (simp add: hashComponents_accumulator signal_UA_def signal_canvas_def
      scenario_accumulator scenario_hex)

lemma scenario_write:
  "setCookie scenario_session (ascii ''-10626487'') (empty_store\<lparr>calls := cs\<rparr>)
     = \<lparr>jar = [\<lparr>cname = ascii ''smbfjs_id'', cvalue = ascii ''-10626487'',
                expires = Some 1731536000000\<rparr>],
        now = 1700000000000, calls = cs\<rparr>"
  by (simp add: eval_defs)

subsection \<open>The round trip\<close>





section \<open>Properties of get()\<close>

lemma get_miss:
  "getCookie s h = Inr None \<or> getCookie s h = Inr (Some []) \<Longrightarrow>
     get s schedule h = compute s schedule h"
  by (auto simp: get_def Let_def)

lemma compute_produces:
  assumes "list_all (\<lambda>c. produces c \<noteq> None) (components s)"
    and "{..<length (components s)} \<subseteq> set schedule"
  shows "\<exists>cs. map Some cs = map produces (components s)
     \<and> compute s schedule h
         = (Some (Fulfilled (Computed (hashComponents (stableComponents cs)) cs)),
            setCookie s (hashComponents (stableComponents cs))
              (h\<lparr>calls := calls h @ [0 ..< length (components s)]\<rparr>))"
proof -
  from collect_produces [OF assms, of h] obtain cs where
    "map Some cs = map produces (components s)"
    "collect s schedule h = (Some (Inr cs), h\<lparr>calls := calls h @ [0 ..< length (components s)]\<rparr>)"
    by auto
  then show ?thesis by (auto simp: compute_def Let_def)
qed

lemma stableComponents_filter:
  "stableComponents cs = filter (\<lambda>c. key c \<in> set stable_keys) cs"
  by (simp add: stableComponents_def Array_includes_set)

text \<open>
  C2. When the read of the store returns no value, and the collectors hand over their
  signals, \<open>get()\<close> collects them all, hashes the values of those with a stable key,
  writes the identifier to the store and resolves with the identifier and the full
  list; in the scenario of the specification the identifier is the hash of
  \<open>["UA-X","CANVAS-Y"]\<close>.
\<close>

theorem get_cache_miss:
  assumes "getCookie s h = Inr None"
    and "list_all (\<lambda>c. produces c \<noteq> None) (components s)"
    and "{..<length (components s)} \<subseteq> set schedule"
  shows "\<exists>cs v. map Some cs = map produces (components s)
     \<and> v = Number_toString 16
             (sint (hash_accumulator (map val (filter (\<lambda>c. key c \<in> set stable_keys) cs))))
     \<and> get s schedule h
         = (Some (Fulfilled (Computed v cs)),
            setCookie s v (h\<lparr>calls := calls h @ [0 ..< length (components s)]\<rparr>))"
proof -
  from compute_produces [OF assms(2,3), of h] obtain cs where
    cs: "map Some cs = map produces (components s)"
    and c: "compute s schedule h
         = (Some (Fulfilled (Computed (hashComponents (stableComponents cs)) cs)),
            setCookie s (hashComponents (stableComponents cs))
              (h\<lparr>calls := calls h @ [0 ..< length (components s)]\<rparr>))"
    by blast
  have "get s schedule h = compute s schedule h"
    using assms(1) by (simp add: get_miss)
  then show ?thesis
    using cs c by (simp add: hashComponents_accumulator stableComponents_filter)
qed

lemma scenario_components:
  "components scenario_session = [Returns signal_UA, Resolves signal_canvas]"
  by (simp add: scenario_session_def)

lemma scenario_stable_set:
  "filter (\<lambda>c. key c \<in> set stable_keys) [signal_UA, signal_canvas] = [signal_UA, signal_canvas]"
  using scenario_stable by (simp add: stableComponents_filter)

theorem get_cache_miss_witness:
  "getCookie scenario_session empty_store = Inr None
   \<and> get scenario_session [1, 0] empty_store
       = (Some (Fulfilled (Computed (ascii ''-10626487'') [signal_UA, signal_canvas])),
          \<lparr>jar = [\<lparr>cname = ascii ''smbfjs_id'', cvalue = ascii ''-10626487'',
                    expires = Some 1731536000000\<rparr>],
           now = 1700000000000, calls = [0, 1]\<rparr>)
   \<and> ascii ''-10626487''
       = Number_toString 16 (sint (hash_accumulator [Str (ascii ''UA-X''), Str (ascii ''CANVAS-Y'')]))"
proof -
  have g: "getCookie scenario_session empty_store = Inr None"
    by (rule getCookie_empty_jar) (simp add: empty_store_def)
  have p: "list_all (\<lambda>c. produces c \<noteq> None) (components scenario_session)"
    by (simp add: scenario_components)
  have sc: "{..<length (components scenario_session)} \<subseteq> set [1, 0 :: nat]"
    by (auto simp: scenario_components)
  from get_cache_miss [OF g p sc] obtain cs v where
    cs: "map Some cs = map produces (components scenario_session)"
    and v: "v = Number_toString 16
             (sint (hash_accumulator (map val (filter (\<lambda>c. key c \<in> set stable_keys) cs))))"
    and r: "get scenario_session [1, 0] empty_store
         = (Some (Fulfilled (Computed v cs)),
            setCookie scenario_session v
              (empty_store\<lparr>calls := calls empty_store @ [0 ..< length (components scenario_session)]\<rparr>))"
    by blast
  from cs have cs': "cs = [signal_UA, signal_canvas]"
    by (auto simp: scenario_components)
  have v': "v = ascii ''-10626487''"
    unfolding v cs' scenario_stable_set
    by (simp add: signal_UA_def signal_canvas_def scenario_accumulator scenario_hex)
  have c: "calls empty_store @ [0 ..< length (components scenario_session)] = [0, 1]"
    by (simp add: scenario_components empty_store_def upt_rec)
  have h: "Number_toString 16 (sint (hash_accumulator [Str (ascii ''UA-X''), Str (ascii ''CANVAS-Y'')]))
      = ascii ''-10626487''"
    by (simp add: scenario_accumulator scenario_hex)
  show ?thesis
    using g r unfolding cs' v' c scenario_write h by simp
qed

lemma collect_frame:
  "jar (snd (collect s schedule h)) = jar h \<and> now (snd (collect s schedule h)) = now h"
  using map_get_frame [of "components s" 0 h]
  by (auto simp: collect_def split: prod.splits sum.splits)

lemma compute_Fulfilled:
  assumes "compute s schedule h = (Some (Fulfilled r), h1)"
  shows "\<exists>cs hc. r = Computed (hashComponents (stableComponents cs)) cs
           \<and> h1 = setCookie s (hashComponents (stableComponents cs)) hc
           \<and> jar hc = jar h \<and> now hc = now h"
proof -
  obtain res hc where c: "collect s schedule h = (res, hc)" by (cases "collect s schedule h")
  have f: "jar hc = jar h \<and> now hc = now h" using collect_frame [of s schedule h] c by simp
  show ?thesis
    using assms c f by (auto simp: compute_def Let_def split: option.splits sum.splits)
qed


lemma expiry_date_cong: "now h' = now h \<Longrightarrow> expiry_date s h' = expiry_date s h"
  by (cases "ToNumber (cookieDays s)") (simp_all add: expiry_date_def)

lemma unexpired_at_cong: "now h' = now h \<Longrightarrow> unexpired_at t s h' = unexpired_at t s h"
  using expiry_date_cong [of h' h s] by (simp add: unexpired_at_def record_expiry_def)

lemma get_cases [case_names error miss hit]:
  obtains e where "getCookie s h = Inl e" "get s schedule h = (Some (Rejected e), h)"
  | "getCookie s h = Inr None \<or> getCookie s h = Inr (Some [])"
      "get s schedule h = compute s schedule h"
  | v where "getCookie s h = Inr (Some v)" "v \<noteq> []"
      "get s schedule h = (Some (Fulfilled (FromCookie v)), h)"
proof (cases "getCookie s h")
  case (Inl e)
  then show ?thesis using that(1) by (simp add: get_def Let_def)
next
  case (Inr c)
  show ?thesis
  proof (cases c)
    case None
    then show ?thesis using Inr that(2) by (simp add: get_def Let_def)
  next
    case (Some v)
    show ?thesis
    proof (cases "v = []")
      case True
      then show ?thesis using Inr Some that(2) by (simp add: get_def Let_def)
    next
      case False
      then show ?thesis using Inr Some that(3) by (simp add: get_def Let_def)
    qed
  qed
qed

lemma get_visitorId_not_Nil:
  assumes "get s schedule h = (Some (Fulfilled r), h1)"
  shows "visitorId r \<noteq> []"
proof (cases rule: get_cases [where s = s and h = h and schedule = schedule])
  case (error e)
  then show ?thesis using assms by simp
next
  case miss
  then have "compute s schedule h = (Some (Fulfilled r), h1)" using assms by simp
  from compute_Fulfilled [OF this] show ?thesis
    by (auto simp: hashComponents_not_Nil)
next
  case (hit v)
  then show ?thesis using assms by auto
qed

lemma jar_setCookie_plain:
  assumes n: "plain_name (ToString (cookieName s))" and v: "plain_value v"
    and u: "unexpired_at (now h) s h"
  shows "(\<exists>c \<in> set (jar (setCookie s v h)). cname c = ToString (cookieName s))
       \<and> (\<forall>c \<in> set (jar (setCookie s v h)). cname c = ToString (cookieName s) \<longrightarrow> cvalue c = v)"
proof -
  let ?c = "\<lparr>cname = ToString (cookieName s), cvalue = v, expires = record_expiry s h\<rparr>"
  have "alive (now h) ?c" using u by (simp add: unexpired_at_def alive_def)
  from store_cookie_shape [OF this, of "jar h"] obtain A B where
    st: "store_cookie (now h) ?c (jar h) = A @ ?c # B"
    and A: "set A \<subseteq> {d \<in> set (jar h). cname d \<noteq> ToString (cookieName s)}"
    and B: "set B \<subseteq> {d \<in> set (jar h). cname d \<noteq> ToString (cookieName s)}" by auto
  have "jar (setCookie s v h) = A @ ?c # B"
    by (simp add: setCookie_plain [OF n v] st)
  then show ?thesis using A B by auto
qed




text \<open>
  C10. When the read of the store returns the empty string, \<open>get()\<close> runs the whole
  pipeline as on a miss and writes the identifier it computes; an identifier that
  \<open>get()\<close> resolves with is never empty; and for a record name that the host stores
  as written and a lifetime that has not run out, the store then holds the identifier
  under that name and nothing else.
\<close>

theorem get_empty_record:
  assumes "getCookie s h = Inr (Some [])"
    and "list_all (\<lambda>c. produces c \<noteq> None) (components s)"
    and "{..<length (components s)} \<subseteq> set schedule"
  shows "(\<exists>cs v h'. map Some cs = map produces (components s)
     \<and> v = hashComponents (stableComponents cs) \<and> v \<noteq> []
     \<and> h' = setCookie s v (h\<lparr>calls := calls h @ [0 ..< length (components s)]\<rparr>)
     \<and> get s schedule h = (Some (Fulfilled (Computed v cs)), h')
     \<and> (plain_name (ToString (cookieName s)) \<and> unexpired_at (now h) s h \<longrightarrow>
          (\<exists>c \<in> set (jar h'). cname c = ToString (cookieName s))
          \<and> (\<forall>c \<in> set (jar h'). cname c = ToString (cookieName s) \<longrightarrow> cvalue c = v)))
     \<and> (\<forall>r h1. get s schedule' h0 = (Some (Fulfilled r), h1) \<longrightarrow> visitorId r \<noteq> [])"
proof -
  from compute_produces [OF assms(2,3), of h] obtain cs where
    cs: "map Some cs = map produces (components s)"
    and c: "compute s schedule h
         = (Some (Fulfilled (Computed (hashComponents (stableComponents cs)) cs)),
            setCookie s (hashComponents (stableComponents cs))
              (h\<lparr>calls := calls h @ [0 ..< length (components s)]\<rparr>))"
    by blast
  let ?v = "hashComponents (stableComponents cs)"
  let ?h = "h\<lparr>calls := calls h @ [0 ..< length (components s)]\<rparr>"
  have g: "get s schedule h = (Some (Fulfilled (Computed ?v cs)), setCookie s ?v ?h)"
    using assms(1) c by (simp add: get_miss)
  have w: "plain_name (ToString (cookieName s)) \<and> unexpired_at (now h) s h \<longrightarrow>
          (\<exists>c \<in> set (jar (setCookie s ?v ?h)). cname c = ToString (cookieName s))
          \<and> (\<forall>c \<in> set (jar (setCookie s ?v ?h)). cname c = ToString (cookieName s) \<longrightarrow> cvalue c = ?v)"
  proof
    assume a: "plain_name (ToString (cookieName s)) \<and> unexpired_at (now h) s h"
    then have "unexpired_at (now ?h) s ?h"
      using unexpired_at_cong [of ?h h "now h" s] by simp
    with a show "(\<exists>c \<in> set (jar (setCookie s ?v ?h)). cname c = ToString (cookieName s))
          \<and> (\<forall>c \<in> set (jar (setCookie s ?v ?h)). cname c = ToString (cookieName s) \<longrightarrow> cvalue c = ?v)"
      by (intro jar_setCookie_plain plain_value_hashComponents) simp
  qed
  have 1: "\<exists>cs v h'. map Some cs = map produces (components s)
     \<and> v = hashComponents (stableComponents cs) \<and> v \<noteq> []
     \<and> h' = setCookie s v (h\<lparr>calls := calls h @ [0 ..< length (components s)]\<rparr>)
     \<and> get s schedule h = (Some (Fulfilled (Computed v cs)), h')
     \<and> (plain_name (ToString (cookieName s)) \<and> unexpired_at (now h) s h \<longrightarrow>
          (\<exists>c \<in> set (jar h'). cname c = ToString (cookieName s))
          \<and> (\<forall>c \<in> set (jar h'). cname c = ToString (cookieName s) \<longrightarrow> cvalue c = v))"
    using cs g w hashComponents_not_Nil [of "stableComponents cs"] by blast
  have 2: "\<forall>r h1. get s schedule' h0 = (Some (Fulfilled r), h1) \<longrightarrow> visitorId r \<noteq> []"
    by (auto dest: get_visitorId_not_Nil)
  from 1 2 show ?thesis by (rule conjI)
qed

theorem get_empty_record_witness:
  "getCookie scenario_session blank_store = Inr (Some [])
   \<and> get scenario_session [0, 1] blank_store
       = (Some (Fulfilled (Computed (ascii ''-10626487'') [signal_UA, signal_canvas])),
          \<lparr>jar = [\<lparr>cname = ascii ''smbfjs_id'', cvalue = ascii ''-10626487'',
                    expires = Some 1731536000000\<rparr>],
           now = 1700000000000, calls = [0, 1]\<rparr>)"
proof -
  have g: "getCookie scenario_session blank_store = Inr (Some [])"
    by (simp add: blank_store_def eval_defs)
  have p: "list_all (\<lambda>c. produces c \<noteq> None) (components scenario_session)"
    by (simp add: scenario_components)
  have sc: "{..<length (components scenario_session)} \<subseteq> set [0, 1 :: nat]"
    by (auto simp: scenario_components)
  from get_empty_record [OF g p sc, THEN conjunct1] obtain cs v h' where
    cs: "map Some cs = map produces (components scenario_session)"
    and v: "v = hashComponents (stableComponents cs)"
    and h': "h' = setCookie scenario_session v
               (blank_store\<lparr>calls := calls blank_store @ [0 ..< length (components scenario_session)]\<rparr>)"
    and r: "get scenario_session [0, 1] blank_store = (Some (Fulfilled (Computed v cs)), h')"
    by blast
  from cs have cs': "cs = [signal_UA, signal_canvas]"
    by (auto simp: scenario_components)
  have v': "v = ascii ''-10626487''"
    unfolding v cs' by (rule scenario_identifier)
  have c: "calls blank_store @ [0 ..< length (components scenario_session)] = [0, 1]"
    by (simp add: scenario_components blank_store_def upt_rec)
  have w: "setCookie scenario_session (ascii ''-10626487'') (blank_store\<lparr>calls := [0, 1]\<rparr>)
      = \<lparr>jar = [\<lparr>cname = ascii ''smbfjs_id'', cvalue = ascii ''-10626487'',
                    expires = Some 1731536000000\<rparr>],
           now = 1700000000000, calls = [0, 1]\<rparr>"
    by (simp add: blank_store_def eval_defs)
  show ?thesis
    using g r unfolding h' v' cs' c w by simp
qed

end
